theory Spec2Isabelle
  imports Main
begin

section \<open>Values of the configuration document\<close>

text \<open>
  The configuration object handed to \<open>getLabelGlobMapFromObject\<close> is typed \<open>any\<close>: it is
  whatever \<open>yaml.safeLoad\<close> returned. It is modelled as a tree of JavaScript values. A
  string is the list of its characters. \<open>JObj ps\<close> is a plain object whose own enumerable
  properties are the pairs \<open>ps\<close>, listed in the order in which they were created, which
  for a loaded document is the order of its mapping; the keys of a JavaScript object are
  pairwise distinct, which the theorems that look a label up state as a \<open>distinct\<close>
  hypothesis.
\<close>

datatype jsval =
    JUndefined
  | JNull
  | JBool bool
  | JNum int
  | JStr string
  | JArr "jsval list"
  | JObj "(string \<times> jsval) list"

text \<open>Errors thrown inside \<open>run\<close>: \<open>Error(message)\<close>, and the \<open>TypeError\<close> of the
  runtime when a property of \<open>null\<close> or \<open>undefined\<close> is read.\<close>

datatype error = Error string | TypeError

text \<open>\<open>interface File { filename: string; status: string }\<close>\<close>

record File =
  filename :: string
  status :: string

text \<open>A rule is the pair \<open>[globs, status]\<close> stored in the map. The status array is typed
  \<open>string[]\<close> in the source, but what is stored at run time is an array of the document,
  so its elements are values.\<close>

type_synonym LabelRule = "string list \<times> jsval list"

text \<open>\<open>Map<string, [string[], string[]]>\<close>: the entries in insertion order.\<close>

type_synonym RuleSet = "(string \<times> LabelRule) list"

definition ALL_STATUS :: "jsval list" where
  "ALL_STATUS = [JStr ''added'', JStr ''modified'', JStr ''removed'']"

text \<open>\<open>Map.prototype.set\<close>: an existing key keeps its position and takes the new value, a
  new key is appended.\<close>

fun Map_set :: "RuleSet \<Rightarrow> string \<Rightarrow> LabelRule \<Rightarrow> RuleSet" where
  "Map_set [] k v = [(k, v)]"
| "Map_set ((k', v') # m) k v =
     (if k' = k then (k, v) # m else (k', v') # Map_set m k v)"

text \<open>\<open>Map.prototype.get\<close>, used to read a rule set in the theorems.\<close>

definition Map_get :: "RuleSet \<Rightarrow> string \<Rightarrow> LabelRule option" where
  "Map_get m k = map_of m k"

section \<open>Enumeration by \<open>for ... in\<close>\<close>

text \<open>The key of an array index or of a string position: its decimal numeral.\<close>

definition digit_char :: "nat \<Rightarrow> char" where
  "digit_char d = char_of (48 + d)"

function index_key :: "nat \<Rightarrow> string" where
  "index_key n =
     (if n < 10 then [digit_char n] else index_key (n div 10) @ [digit_char (n mod 10)])"
  by pat_completeness auto
termination
  by (relation "measure (\<lambda>n. n)") auto

declare index_key.simps [simp del]

text \<open>
  An integer-like key (an array index of the language): the decimal numeral, without a
  leading zero, of a number below \<open>2^32 - 1\<close>. \<open>key_index\<close> gives that number.
\<close>

definition digits :: "(char \<times> nat) list" where
  "digits =
     [(CHR ''0'', 0), (CHR ''1'', 1), (CHR ''2'', 2), (CHR ''3'', 3), (CHR ''4'', 4),
      (CHR ''5'', 5), (CHR ''6'', 6), (CHR ''7'', 7), (CHR ''8'', 8), (CHR ''9'', 9)]"

fun decimal :: "string \<Rightarrow> nat \<Rightarrow> nat option" where
  "decimal [] a = Some a"
| "decimal (c # cs) a =
     (case map_of digits c of None \<Rightarrow> None | Some d \<Rightarrow> decimal cs (10 * a + d))"

definition key_index :: "string \<Rightarrow> nat option" where
  "key_index k =
     (case k of
        [] \<Rightarrow> None
      | c # cs \<Rightarrow>
          if c = CHR ''0'' \<and> cs \<noteq> [] then None
          else (case decimal k 0 of
                  None \<Rightarrow> None
                | Some n \<Rightarrow> if n < 4294967295 then Some n else None))"

definition is_index_key :: "string \<Rightarrow> bool" where
  "is_index_key k = (key_index k \<noteq> None)"

text \<open>
  \<open>for (const label in configObject)\<close> together with the read \<open>configObject[label]\<close>: the
  keys enumerated, each with the value read under it. An object gives its integer-like
  keys first, in ascending numeric order, and then its other keys in the order of their
  creation; an array gives its indices with its elements, a string its positions with
  its one-character substrings; \<open>undefined\<close>, \<open>null\<close>, booleans and numbers have no
  enumerable property.
\<close>

fun for_in :: "jsval \<Rightarrow> (string \<times> jsval) list" where
  "for_in (JObj ps) =
     sort_key (\<lambda>p. the (key_index (fst p))) (filter (\<lambda>p. is_index_key (fst p)) ps)
     @ filter (\<lambda>p. \<not> is_index_key (fst p)) ps"
| "for_in (JArr xs) = zip (map index_key [0..<length xs]) xs"
| "for_in (JStr s) = zip (map index_key [0..<length s]) (map (\<lambda>c. JStr [c]) s)"
| "for_in v = []"

section \<open>The config parser: \<open>getLabelGlobMapFromObject\<close>\<close>

text \<open>
  \<open>configObject[label][temp]["on"]\<close> for an element that is not a string. Reading a property
  of \<open>undefined\<close> or \<open>null\<close> throws a \<open>TypeError\<close>; a plain object gives the property or
  \<open>undefined\<close>; a number, a boolean and an array have no property \<open>on\<close>.
\<close>

fun get_on :: "jsval \<Rightarrow> error + jsval" where
  "get_on JUndefined = Inl TypeError"
| "get_on JNull = Inl TypeError"
| "get_on (JObj ps) = Inr (case map_of ps ''on'' of Some v \<Rightarrow> v | None \<Rightarrow> JUndefined)"
| "get_on v = Inr JUndefined"

text \<open>The body of the inner loop (lines 122 to 130), on the pair of the local variables
  \<open>globs\<close> and \<open>status\<close>.\<close>

fun sequence_step :: "LabelRule \<Rightarrow> jsval \<Rightarrow> error + LabelRule" where
  "sequence_step (globs, st) (JStr s) = Inr (globs @ [s], st)"
| "sequence_step (globs, st) e =
     (case get_on e of
        Inl err \<Rightarrow> Inl err
      | Inr (JStr s) \<Rightarrow> Inr (globs, [JStr s])
      | Inr (JArr a) \<Rightarrow> Inr (globs, a)
      | Inr _ \<Rightarrow> Inl (Error ''found unexpected ...''))"

text \<open>The inner loop (line 121) over the elements of the array, in index order; a throw
  leaves the loop.\<close>

fun sequence_loop :: "jsval list \<Rightarrow> LabelRule \<Rightarrow> error + LabelRule" where
  "sequence_loop [] r = Inr r"
| "sequence_loop (e # es) r =
     (case sequence_step r e of Inl err \<Rightarrow> Inl err | Inr r' \<Rightarrow> sequence_loop es r')"

definition label_msg :: "string \<Rightarrow> string" where
  "label_msg label =
     ''found unexpected type for label '' @ label @ '' (should be string or array of globs)''"

text \<open>The rule that the body of the outer loop (lines 116 to 137) stores for a label, or
  the error it throws.\<close>

fun label_rule :: "string \<Rightarrow> jsval \<Rightarrow> error + LabelRule" where
  "label_rule label (JStr s) = Inr ([s], ALL_STATUS)"
| "label_rule label (JArr xs) = sequence_loop xs ([], ALL_STATUS)"
| "label_rule label v = Inl (Error (label_msg label))"

text \<open>The outer loop (line 115) on the map \<open>labelGlobs\<close>.\<close>

fun labels_loop :: "(string \<times> jsval) list \<Rightarrow> RuleSet \<Rightarrow> error + RuleSet" where
  "labels_loop [] m = Inr m"
| "labels_loop ((label, v) # ps) m =
     (case label_rule label v of
        Inl err \<Rightarrow> Inl err
      | Inr r \<Rightarrow> labels_loop ps (Map_set m label r))"

definition getLabelGlobMapFromObject :: "jsval \<Rightarrow> error + RuleSet" where
  "getLabelGlobMapFromObject configObject = labels_loop (for_in configObject) []"

section \<open>The rule evaluator: \<open>checkGlobs\<close>\<close>

text \<open>\<open>status.includes(changedFile.status)\<close>: some element of the array is that string.\<close>

fun Array_includes :: "jsval list \<Rightarrow> string \<Rightarrow> bool" where
  "Array_includes [] x = False"
| "Array_includes (y # ys) x = (if y = JStr x then True else Array_includes ys x)"

text \<open>
  The glob library is not part of the repository: \<open>matcher g p\<close> stands for
  \<open>new Minimatch(g).match(p)\<close> and is a parameter of the evaluator.
\<close>

type_synonym matcher = "string \<Rightarrow> string \<Rightarrow> bool"

text \<open>The inner loop (line 151) over the changed files, for one glob.\<close>

fun files_loop :: "matcher \<Rightarrow> string \<Rightarrow> jsval list \<Rightarrow> File list \<Rightarrow> bool" where
  "files_loop mt glob st [] = False"
| "files_loop mt glob st (changedFile # fs) =
     (if mt glob (filename changedFile) \<and> Array_includes st (status changedFile) then True
      else files_loop mt glob st fs)"

fun checkGlobs :: "matcher \<Rightarrow> File list \<Rightarrow> string list \<Rightarrow> jsval list \<Rightarrow> bool" where
  "checkGlobs mt changedFiles [] st = False"
| "checkGlobs mt changedFiles (glob # globs) st =
     (if files_loop mt glob st changedFiles then True
      else checkGlobs mt changedFiles globs st)"

section \<open>The orchestrator: \<open>run\<close>\<close>

text \<open>
  Whether the conversion of a value to a string returns. It throws a \<open>TypeError\<close> for an
  object with an own property \<open>toString\<close> (a value of the document is never a function,
  and \<open>valueOf\<close> gives back the object); an array is converted by joining the
  conversions of its elements; every other value converts.
\<close>

fun stringifiable :: "jsval \<Rightarrow> bool" where
  "stringifiable (JArr xs) = list_all stringifiable xs"
| "stringifiable (JObj ps) = (map_of ps ''toString'' = None)"
| "stringifiable v = True"

text \<open>
  The loop of lines 33 to 38 on the array \<open>labels\<close>, over the entries of the map in
  insertion order. The template literal of line 34 converts the array \<open>status\<close> to a
  string, which throws when an element of it does not convert; \<open>label\<close> and \<open>globs\<close> are
  strings.
\<close>

fun select_loop ::
  "matcher \<Rightarrow> File list \<Rightarrow> RuleSet \<Rightarrow> string list \<Rightarrow> error + string list" where
  "select_loop mt changedFiles [] labels = Inr labels"
| "select_loop mt changedFiles ((label, globs, st) # entries) labels =
     (if \<not> list_all stringifiable st then Inl TypeError
      else select_loop mt changedFiles entries
             (if checkGlobs mt changedFiles globs st then labels @ [label] else labels))"

text \<open>Lines 32 to 38: \<open>labels\<close> starts empty.\<close>

definition selectLabels :: "matcher \<Rightarrow> File list \<Rightarrow> RuleSet \<Rightarrow> error + string list" where
  "selectLabels mt changedFiles labelGlobs = select_loop mt changedFiles labelGlobs []"

text \<open>
  The calls \<open>run\<close> makes on the repository client, with their arguments:
  \<open>client.pulls.listFiles\<close> (owner, repo, pull number), \<open>client.repos.getContents\<close> (owner,
  repo, path, ref) and \<open>client.issues.addLabels\<close> (owner, repo, issue number, labels).
\<close>

datatype call =
    PullsListFiles string string nat
  | ReposGetContents string string string string
  | IssuesAddLabels string string nat "string list"

text \<open>
  What one run finds around it. The two inputs are the results of
  \<open>core.getInput(name, {required: true})\<close>, which throws when the input is not supplied.
  \<open>pull_request\<close> is \<open>github.context.payload.pull_request\<close>, given by its number when
  present. \<open>GitHub_constructor\<close> is \<open>new github.GitHub(token)\<close> of the client library, an
  error when the constructor throws for that token. The three responses are what the client's calls give in this run, an error
  when the call throws; \<open>config_response\<close> is the content fetched by \<open>fetchContent\<close> and
  loaded by \<open>yaml.safeLoad\<close>.
\<close>

record world =
  input_repo_token :: "error + string"
  input_configuration_path :: "error + string"
  pull_request :: "nat option"
  GitHub_constructor :: "string \<Rightarrow> error + unit"
  repo_owner :: string
  repo_name :: string
  context_sha :: string
  listFiles_response :: "error + File list"
  config_response :: "error + jsval"
  addLabels_response :: "error + unit"

text \<open>How \<open>run\<close> ends: it returns, or the \<open>catch\<close> block reports the error by
  \<open>core.setFailed\<close>.\<close>

datatype outcome = Completed | Failed error

record result =
  calls :: "call list"
  console_log :: "string list"
  outcome :: outcome

definition getPrNumber :: "world \<Rightarrow> nat option" where
  "getPrNumber w = pull_request w"

text \<open>Where lines 14 to 38 leave the run: an error thrown, the early \<open>return\<close> of line 20,
  or the pull request number with the array \<open>labels\<close> at line 40.\<close>

datatype phase = Threw error | Exited | Selected nat "string list"

definition no_pr_msg :: string where
  "no_pr_msg = ''Could not get pull request number from context, exiting''"

text \<open>Lines 14 to 38, with the calls made and the lines written by \<open>console.log\<close>. The test
  \<open>!prNumber\<close> holds for \<open>undefined\<close> and for the number 0.\<close>

definition select_phase :: "matcher \<Rightarrow> world \<Rightarrow> call list \<times> string list \<times> phase" where
  "select_phase mt w =
     (case input_repo_token w of
        Inl e \<Rightarrow> ([], [], Threw e)
      | Inr token \<Rightarrow>
     (case input_configuration_path w of
        Inl e \<Rightarrow> ([], [], Threw e)
      | Inr configPath \<Rightarrow>
     (case getPrNumber w of
        None \<Rightarrow> ([], [no_pr_msg], Exited)
      | Some prNumber \<Rightarrow>
     if prNumber = 0 then ([], [no_pr_msg], Exited)
     else
     (case GitHub_constructor w token of
        Inl e \<Rightarrow> ([], [], Threw e)
      | Inr client \<Rightarrow>
       let c1 = PullsListFiles (repo_owner w) (repo_name w) prNumber;
           c2 = ReposGetContents (repo_owner w) (repo_name w) configPath (context_sha w)
       in
     (case listFiles_response w of
        Inl e \<Rightarrow> ([c1], [], Threw e)
      | Inr changedFiles \<Rightarrow>
     (case config_response w of
        Inl e \<Rightarrow> ([c1, c2], [], Threw e)
      | Inr configObject \<Rightarrow>
     (case getLabelGlobMapFromObject configObject of
        Inl e \<Rightarrow> ([c1, c2], [], Threw e)
      | Inr labelGlobs \<Rightarrow>
     (case selectLabels mt changedFiles labelGlobs of
        Inl e \<Rightarrow> ([c1, c2], [], Threw e)
      | Inr labels \<Rightarrow> ([c1, c2], [], Selected prNumber labels)))))))))"

text \<open>\<open>run\<close>: lines 14 to 38, then lines 40 to 42, inside the \<open>try\<close> whose \<open>catch\<close> turns a
  thrown error into the failure signal.\<close>

definition run :: "matcher \<Rightarrow> world \<Rightarrow> result" where
  "run mt w =
     (case select_phase mt w of
        (cs, lg, Threw e) \<Rightarrow> \<lparr>calls = cs, console_log = lg, outcome = Failed e\<rparr>
      | (cs, lg, Exited) \<Rightarrow> \<lparr>calls = cs, console_log = lg, outcome = Completed\<rparr>
      | (cs, lg, Selected prNumber labels) \<Rightarrow>
          if length labels > 0 then
            \<lparr>calls = cs @ [IssuesAddLabels (repo_owner w) (repo_name w) prNumber labels],
             console_log = lg,
             outcome = (case addLabels_response w of Inl e \<Rightarrow> Failed e | Inr u \<Rightarrow> Completed)\<rparr>
          else \<lparr>calls = cs, console_log = lg, outcome = Completed\<rparr>)"

text \<open>The calls of a trace that are not reads of the repository.\<close>

fun is_read :: "call \<Rightarrow> bool" where
  "is_read (PullsListFiles ow rp n) = True"
| "is_read (ReposGetContents ow rp pth rf) = True"
| "is_read (IssuesAddLabels ow rp n ls) = False"

section \<open>The specification's words\<close>

text \<open>The string elements of a sequence, in order.\<close>

fun string_elements :: "jsval list \<Rightarrow> string list" where
  "string_elements [] = []"
| "string_elements (JStr s # es) = s # string_elements es"
| "string_elements (e # es) = string_elements es"

text \<open>The status filter an \<open>on\<close> entry gives: a string becomes a one-element filter, a
  sequence is the filter as it is. Any other element gives none.\<close>

fun on_filter :: "jsval \<Rightarrow> jsval list option" where
  "on_filter (JObj ps) =
     (case map_of ps ''on'' of
        Some (JStr s) \<Rightarrow> Some [JStr s]
      | Some (JArr a) \<Rightarrow> Some a
      | _ \<Rightarrow> None)"
| "on_filter e = None"

fun on_filters :: "jsval list \<Rightarrow> jsval list list" where
  "on_filters [] = []"
| "on_filters (e # es) =
     (case on_filter e of None \<Rightarrow> on_filters es | Some f \<Rightarrow> f # on_filters es)"

text \<open>The last \<open>on\<close> entry determines the filter; with no \<open>on\<close> entry it is all statuses.\<close>

definition final_filter :: "jsval list \<Rightarrow> jsval list" where
  "final_filter xs = last (ALL_STATUS # on_filters xs)"

text \<open>An element the parser takes: a string, or an object whose \<open>on\<close> key holds a string or
  a sequence.\<close>

fun accepted_element :: "jsval \<Rightarrow> bool" where
  "accepted_element (JStr s) = True"
| "accepted_element e = (on_filter e \<noteq> None)"

text \<open>A label's value the parser takes: a string, or a sequence of elements it takes.\<close>

fun accepted_value :: "jsval \<Rightarrow> bool" where
  "accepted_value (JStr s) = True"
| "accepted_value (JArr xs) = list_all accepted_element xs"
| "accepted_value v = False"

fun is_JStr :: "jsval \<Rightarrow> bool" where
  "is_JStr (JStr s) = True"
| "is_JStr v = False"

fun is_JArr :: "jsval \<Rightarrow> bool" where
  "is_JArr (JArr xs) = True"
| "is_JArr v = False"

text \<open>The specification's reading of a well-formed element: a string, or an object whose
  \<open>on\<close> key holds a string or a sequence of strings.\<close>

fun spec_element :: "jsval \<Rightarrow> bool" where
  "spec_element (JStr s) = True"
| "spec_element (JObj ps) =
     (case map_of ps ''on'' of
        Some (JStr s) \<Rightarrow> True
      | Some (JArr a) \<Rightarrow> list_all is_JStr a
      | _ \<Rightarrow> False)"
| "spec_element e = False"

fun spec_value :: "jsval \<Rightarrow> bool" where
  "spec_value (JStr s) = True"
| "spec_value (JArr xs) = list_all spec_element xs"
| "spec_value v = False"

text \<open>The specification's invariant of a rule: at least one glob, and a status filter that
  is a non-empty subset of the three statuses.\<close>

fun LabelRule_invariant :: "LabelRule \<Rightarrow> bool" where
  "LabelRule_invariant (globs, st) =
     (globs \<noteq> [] \<and> st \<noteq> [] \<and> list_all (\<lambda>x. List.member ALL_STATUS x) st)"

text \<open>The values for which the parser's rule has the invariant: a string, or a sequence
  with at least one string element whose last \<open>on\<close> entry, if there is one, gives a
  non-empty filter of the three statuses.\<close>

fun ensures_invariant :: "jsval \<Rightarrow> bool" where
  "ensures_invariant (JStr s) = True"
| "ensures_invariant (JArr xs) =
     (list_ex is_JStr xs \<and> final_filter xs \<noteq> [] \<and>
      list_all (\<lambda>x. List.member ALL_STATUS x) (final_filter xs))"
| "ensures_invariant v = False"

text \<open>The rule of a value the parser takes: shape (a) and shape (b).\<close>

fun spec_rule :: "jsval \<Rightarrow> LabelRule" where
  "spec_rule (JStr s) = ([s], ALL_STATUS)"
| "spec_rule (JArr xs) = (string_elements xs, final_filter xs)"
| "spec_rule v = ([], ALL_STATUS)"

text \<open>An element that is an \<open>on\<close> object the parser takes.\<close>

definition on_object :: "jsval \<Rightarrow> bool" where
  "on_object e = (on_filter e \<noteq> None)"

section \<open>Rule evaluation\<close>

lemma Array_includes_iff: "Array_includes st x \<longleftrightarrow> JStr x \<in> set st"
  by (induction st) auto

lemma files_loop_iff:
  "files_loop mt glob st fs \<longleftrightarrow>
     (\<exists>f \<in> set fs. mt glob (filename f) \<and> JStr (status f) \<in> set st)"
  by (induction fs) (auto simp: Array_includes_iff)

section \<open>The loops of the parser and of the selection\<close>

lemma select_loop_eq:
  "select_loop mt fs m labels =
     (if list_all (\<lambda>e. list_all stringifiable (snd (snd e))) m
      then Inr (labels @ map fst (filter (\<lambda>(l, g, st). checkGlobs mt fs g st) m))
      else Inl TypeError)"
  by (induction m arbitrary: labels) auto

lemma for_in_single: "for_in (JObj [(l, v)]) = [(l, v)]"
  by simp

lemma for_in_plain:
  "list_all (\<lambda>k. \<not> is_index_key k) (map fst ps) \<Longrightarrow> for_in (JObj ps) = ps"
  by (induction ps) (auto simp: list_all_iff)

lemma set_for_in_JObj: "set (for_in (JObj ps)) = set ps"
  by auto

lemma distinct_for_in_JObj:
  assumes "distinct (map fst ps)"
  shows "distinct (map fst (for_in (JObj ps)))"
proof -
  have inj: "inj_on fst (set ps)" and d: "distinct ps"
    using assms by (simp_all add: distinct_map)
  have "distinct (for_in (JObj ps))" using d by auto
  moreover have "inj_on fst (set (for_in (JObj ps)))"
    using inj by (simp only: set_for_in_JObj)
  ultimately show ?thesis by (simp add: distinct_map del: for_in.simps)
qed

lemma map_fst_insort_key:
  "map fst (insort_key (\<lambda>p. f (fst p)) x xs) = insort_key f (fst x) (map fst xs)"
  by (induction xs) auto

lemma map_fst_sort_key:
  "map fst (sort_key (\<lambda>p. f (fst p)) xs) = sort_key f (map fst xs)"
  by (induction xs) (auto simp: map_fst_insort_key)

lemma keys_for_in_JObj:
  "map fst (for_in (JObj ps)) =
     sort_key (\<lambda>k. the (key_index k)) (filter is_index_key (map fst ps))
     @ filter (\<lambda>k. \<not> is_index_key k) (map fst ps)"
  using map_fst_sort_key [of "\<lambda>k. the (key_index k)" "filter (\<lambda>p. is_index_key (fst p)) ps"]
  by (simp add: filter_map comp_def)

lemma Map_set_fresh: "k \<notin> fst ` set m \<Longrightarrow> Map_set m k v = m @ [(k, v)]"
  by (induction m) auto

lemma sequence_step_accepted:
  "accepted_element e \<Longrightarrow>
     sequence_step (g, st) e = Inr (g @ string_elements [e], last (st # on_filters [e]))"
  by (cases e) (auto split: option.splits jsval.splits)

lemma sequence_step_rejected:
  "\<not> accepted_element e \<Longrightarrow> isl (sequence_step (g, st) e)"
  by (cases e) (auto split: option.splits jsval.splits)

lemma string_elements_Cons: "string_elements (e # es) = string_elements [e] @ string_elements es"
  by (cases e) auto

lemma on_filters_Cons: "on_filters (e # es) = on_filters [e] @ on_filters es"
  by (cases "on_filter e") auto

lemma sequence_loop_iff:
  "sequence_loop xs (g, st) = Inr r \<longleftrightarrow>
     list_all accepted_element xs \<and> r = (g @ string_elements xs, last (st # on_filters xs))"
proof (induction xs arbitrary: g st)
  case Nil
  then show ?case by auto
next
  case (Cons e es)
  show ?case
  proof (cases "accepted_element e")
    case True
    have "sequence_loop (e # es) (g, st) =
        sequence_loop es (g @ string_elements [e], last (st # on_filters [e]))"
      using True by (simp add: sequence_step_accepted)
    moreover have "last (last (st # on_filters [e]) # on_filters es) = last (st # on_filters (e # es))"
      by (cases "on_filter e") auto
    ultimately show ?thesis
      using True Cons.IH [of "g @ string_elements [e]" "last (st # on_filters [e])"]
        string_elements_Cons [of e es]
      by auto
  next
    case False
    then have "isl (sequence_step (g, st) e)" by (rule sequence_step_rejected)
    then obtain err where "sequence_step (g, st) e = Inl err" by (cases "sequence_step (g, st) e") auto
    then show ?thesis using False by simp
  qed
qed

lemma label_rule_iff:
  "label_rule l v = Inr r \<longleftrightarrow> accepted_value v \<and> r = spec_rule v"
  by (cases v) (auto simp: sequence_loop_iff final_filter_def)

lemma label_rule_rejected: "\<not> accepted_value v \<Longrightarrow> isl (label_rule l v)"
  using label_rule_iff [of l v] by (cases "label_rule l v") auto

lemma labels_loop_isl:
  "isl (labels_loop ps m) \<longleftrightarrow> \<not> list_all (\<lambda>p. accepted_value (snd p)) ps"
proof (induction ps arbitrary: m)
  case Nil
  then show ?case by simp
next
  case (Cons p ps)
  obtain l v where p: "p = (l, v)" by (cases p)
  show ?case
  proof (cases "label_rule l v")
    case (Inl e)
    then have "\<not> accepted_value v" using label_rule_iff [of l v "spec_rule v"] by auto
    then show ?thesis using Inl p by simp
  next
    case (Inr r)
    then have "accepted_value v" using label_rule_iff [of l v r] by simp
    then show ?thesis using Inr p Cons.IH by simp
  qed
qed

lemma labels_loop_first_error:
  "list_all (\<lambda>p. accepted_value (snd p)) pre \<Longrightarrow> label_rule l v = Inl e \<Longrightarrow>
     labels_loop (pre @ (l, v) # post) m = Inl e"
proof (induction pre arbitrary: m)
  case Nil
  then show ?case by simp
next
  case (Cons p pre)
  obtain l' v' where p: "p = (l', v')" by (cases p)
  from Cons.prems have "accepted_value v'" using p by simp
  then have "label_rule l' v' = Inr (spec_rule v')" using label_rule_iff by blast
  then show ?case using Cons p by simp
qed

lemma labels_loop_Inr:
  "distinct (map fst ps) \<Longrightarrow> fst ` set ps \<inter> fst ` set m0 = {} \<Longrightarrow>
   labels_loop ps m0 = Inr m \<Longrightarrow>
     m = m0 @ map (\<lambda>p. (fst p, spec_rule (snd p))) ps"
proof (induction ps arbitrary: m0)
  case Nil
  then show ?case by simp
next
  case (Cons p ps)
  obtain l v where p: "p = (l, v)" by (cases p)
  from Cons.prems(3) p obtain r where r: "label_rule l v = Inr r"
    and rest: "labels_loop ps (Map_set m0 l r) = Inr m"
    by (cases "label_rule l v") auto
  have rv: "r = spec_rule v" using r label_rule_iff by blast
  have fresh: "l \<notin> fst ` set m0" using Cons.prems(2) p by auto
  then have ms: "Map_set m0 l r = m0 @ [(l, r)]" by (rule Map_set_fresh)
  have d: "distinct (map fst ps)" using Cons.prems(1) by simp
  have "fst ` set ps \<inter> fst ` set (m0 @ [(l, r)]) = {}"
    using Cons.prems(1,2) p by auto
  from Cons.IH [OF d this] rest ms have "m = (m0 @ [(l, r)]) @ map (\<lambda>p. (fst p, spec_rule (snd p))) ps"
    by simp
  then show ?case using p rv by simp
qed

lemma parse_Inr:
  assumes "getLabelGlobMapFromObject cfg = Inr m" "distinct (map fst (for_in cfg))"
  shows "m = map (\<lambda>p. (fst p, spec_rule (snd p))) (for_in cfg)"
    and "list_all (\<lambda>p. accepted_value (snd p)) (for_in cfg)"
proof -
  show "m = map (\<lambda>p. (fst p, spec_rule (snd p))) (for_in cfg)"
    using labels_loop_Inr [of "for_in cfg" "[]" m] assms
    by (simp add: getLabelGlobMapFromObject_def)
  have "\<not> isl (labels_loop (for_in cfg) [])"
    using assms(1) by (simp add: getLabelGlobMapFromObject_def)
  then show "list_all (\<lambda>p. accepted_value (snd p)) (for_in cfg)"
    by (simp add: labels_loop_isl)
qed

lemma parse_keys:
  "getLabelGlobMapFromObject cfg = Inr m \<Longrightarrow> distinct (map fst (for_in cfg)) \<Longrightarrow>
     map fst m = map fst (for_in cfg)"
  using parse_Inr(1) [of cfg m] by (simp add: comp_def)

lemma parse_lookup:
  assumes "getLabelGlobMapFromObject cfg = Inr m" "distinct (map fst (for_in cfg))"
    "(label, v) \<in> set (for_in cfg)"
  shows "Map_get m label = Some (spec_rule v)"
proof -
  have m: "m = map (\<lambda>p. (fst p, spec_rule (snd p))) (for_in cfg)"
    using assms(1,2) by (rule parse_Inr(1))
  have d: "distinct (map fst m)" using assms(1,2) by (simp add: parse_keys)
  have "(label, spec_rule v) \<in> set m" using assms(3) m by force
  then show ?thesis using d by (simp add: Map_get_def)
qed

lemma string_elements_empty: "string_elements xs = [] \<longleftrightarrow> \<not> list_ex is_JStr xs"
  by (induction xs rule: string_elements.induct) auto

lemma invariant_spec_rule:
  "accepted_value v \<Longrightarrow> LabelRule_invariant (spec_rule v) \<longleftrightarrow> ensures_invariant v"
  by (cases v) (auto simp: string_elements_empty ALL_STATUS_def)

lemma selectLabels_eq:
  "selectLabels mt fs m =
     (if list_all (\<lambda>e. list_all stringifiable (snd (snd e))) m
      then Inr (map fst (filter (\<lambda>(l, g, st). checkGlobs mt fs g st) m))
      else Inl TypeError)"
  by (simp add: selectLabels_def select_loop_eq)

lemma on_object_accepted: "on_object e \<Longrightarrow> accepted_element e"
  by (cases e) (auto simp: on_object_def)

lemma on_objects_no_strings: "list_all on_object xs \<Longrightarrow> string_elements xs = []"
  by (induction xs rule: string_elements.induct) (auto simp: on_object_def)

lemma sequence_loop_errors:
  "sequence_loop xs r = Inl e \<Longrightarrow> e = TypeError \<or> e = Error ''found unexpected ...''"
proof (induction xs arbitrary: r)
  case Nil
  then show ?case by simp
next
  case (Cons x xs)
  obtain g st where r: "r = (g, st)" by (cases r)
  show ?case
  proof (cases "sequence_step r x")
    case (Inl err)
    then have "err = e" using Cons.prems by simp
    moreover have "err = TypeError \<or> err = Error ''found unexpected ...''"
      using Inl r by (cases x) (auto split: option.splits jsval.splits)
    ultimately show ?thesis by simp
  next
    case (Inr r')
    then show ?thesis using Cons by simp
  qed
qed

lemma same_key_same_value:
  "distinct (map fst ps) \<Longrightarrow> (k, v) \<in> set ps \<Longrightarrow> (k, v') \<in> set ps \<Longrightarrow> v = v'"
  by (rule eq_key_imp_eq_value)

lemma select_phase_calls_read: "list_all is_read (fst (select_phase mt w))"
  by (simp add: select_phase_def Let_def split: sum.splits option.splits)

lemma checkGlobs_empty_filter: "\<not> checkGlobs mt changedFiles globs []"
  by (induction globs) (auto simp: files_loop_iff)

lemma string_elements_strings: "string_elements (map JStr gs @ ys) = gs @ string_elements ys"
  by (induction gs) auto

lemma on_filters_strings: "on_filters (map JStr gs @ ys) = on_filters ys"
  by (induction gs) auto

lemma accepted_strings: "list_all accepted_element (map JStr gs)"
  by (induction gs) auto

lemma parse_single_label:
  "accepted_value v \<Longrightarrow>
     getLabelGlobMapFromObject (JObj [(label, v)]) = Inr [(label, spec_rule v)]"
  using label_rule_iff [of label v "spec_rule v"]
  by (simp add: getLabelGlobMapFromObject_def for_in_single del: for_in.simps)

lemma not_selected:
  assumes "distinct (map fst m)" and "Map_get m label = Some (globs, st)"
    and "\<not> checkGlobs mt changedFiles globs st"
    and "selectLabels mt changedFiles m = Inr labels"
  shows "label \<notin> set labels"
proof
  assume "label \<in> set labels"
  then obtain g s where in_m: "(label, g, s) \<in> set m" and ck: "checkGlobs mt changedFiles g s"
    using assms(4) by (auto simp: selectLabels_eq split: if_splits)
  from in_m assms(1) have "map_of m label = Some (g, s)" by simp
  then have "(g, s) = (globs, st)" using assms(2) by (simp add: Map_get_def)
  then show False using ck assms(3) by simp
qed

lemmas key_eval = is_index_key_def key_index_def digits_def

section \<open>The claims\<close>

text \<open>
  Claim C1. For every rule (a glob list and a status filter) and every list of changed
  files, \<open>checkGlobs\<close> returns true if and only if some glob of the rule and some changed
  file are such that the glob matches the file's path and the file's change status is a
  member of the rule's status filter.
\<close>

theorem checkGlobs_iff_exists:
  "checkGlobs mt changedFiles globs st \<longleftrightarrow>
     (\<exists>g \<in> set globs. \<exists>f \<in> set changedFiles.
        mt g (filename f) \<and> JStr (status f) \<in> set st)"
  by (induction globs) (auto simp: files_loop_iff)

theorem checkGlobs_iff_exists_witness:
  "checkGlobs (\<lambda>g p. g = p)
     [\<lparr>filename = ''a.md'', status = ''added''\<rparr>, \<lparr>filename = ''b.md'', status = ''removed''\<rparr>]
     [''x'', ''b.md''] [JStr ''removed'']
   \<and> (\<exists>g \<in> set [''x'', ''b.md''].
        \<exists>f \<in> set [\<lparr>filename = ''a.md'', status = ''added''\<rparr>,
                    \<lparr>filename = ''b.md'', status = ''removed''\<rparr>].
          g = filename f \<and> JStr (status f) \<in> set [JStr ''removed''])"
  using checkGlobs_iff_exists [of "\<lambda>g p. g = p"
      "[\<lparr>filename = ''a.md'', status = ''added''\<rparr>, \<lparr>filename = ''b.md'', status = ''removed''\<rparr>]"
      "[''x'', ''b.md'']" "[JStr ''removed'']"]
  by simp

text \<open>
  Claim C2, as amended. The claim as stated fails: a sequence with no string element
  gives an empty glob list, \<open>on: []\<close> an empty status filter, and an \<open>on\<close> value is
  stored whatever it holds. What holds: for every configuration object the parser
  accepts, every rule of the result has the invariant (at least one glob, and a
  non-empty status filter within added, modified, removed) exactly when every label's
  value is a string, or a sequence with at least one string element whose last \<open>on\<close>
  entry, if there is one, gives a non-empty filter of the three statuses.
\<close>

theorem ruleset_invariant_iff:
  assumes "getLabelGlobMapFromObject cfg = Inr m" and "distinct (map fst (for_in cfg))"
  shows "list_all (\<lambda>e. LabelRule_invariant (snd e)) m \<longleftrightarrow>
           list_all (\<lambda>p. ensures_invariant (snd p)) (for_in cfg)"
proof -
  have m: "m = map (\<lambda>p. (fst p, spec_rule (snd p))) (for_in cfg)"
    using assms by (rule parse_Inr(1))
  have acc: "list_all (\<lambda>p. accepted_value (snd p)) (for_in cfg)"
    using assms by (rule parse_Inr(2))
  have "list_all (\<lambda>e. LabelRule_invariant (snd e)) m \<longleftrightarrow>
          list_all (\<lambda>p. LabelRule_invariant (spec_rule (snd p))) (for_in cfg)"
    by (simp add: m list_all_iff)
  also have "\<dots> \<longleftrightarrow> list_all (\<lambda>p. ensures_invariant (snd p)) (for_in cfg)"
    using acc by (auto simp: list_all_iff invariant_spec_rule)
  finally show ?thesis .
qed

theorem ruleset_invariant_iff_witness:
  "getLabelGlobMapFromObject
     (JObj [(''docs'', JStr ''*.md''),
            (''gone'', JArr [JStr ''src/**'', JObj [(''on'', JStr ''removed'')]])])
     = Inr [(''docs'', ([''*.md''], ALL_STATUS)), (''gone'', ([''src/**''], [JStr ''removed'']))]
   \<and> list_all (\<lambda>e. LabelRule_invariant (snd e))
        [(''docs'', ([''*.md''], ALL_STATUS)), (''gone'', ([''src/**''], [JStr ''removed'']))]
   \<and> list_all (\<lambda>p. ensures_invariant (snd p))
        (for_in (JObj [(''docs'', JStr ''*.md''),
            (''gone'', JArr [JStr ''src/**'', JObj [(''on'', JStr ''removed'')]])]))"
proof -
  let ?cfg = "JObj [(''docs'', JStr ''*.md''),
            (''gone'', JArr [JStr ''src/**'', JObj [(''on'', JStr ''removed'')]])]"
  let ?m = "[(''docs'', ([''*.md''], ALL_STATUS)), (''gone'', ([''src/**''], [JStr ''removed'']))]"
  have f: "for_in ?cfg = [(''docs'', JStr ''*.md''),
            (''gone'', JArr [JStr ''src/**'', JObj [(''on'', JStr ''removed'')]])]"
    by (simp add: key_eval)
  have p: "getLabelGlobMapFromObject ?cfg = Inr ?m"
    by (simp add: getLabelGlobMapFromObject_def f del: for_in.simps)
  have d: "distinct (map fst (for_in ?cfg))" by (simp add: f del: for_in.simps)
  have e: "list_all (\<lambda>p. ensures_invariant (snd p)) (for_in ?cfg)"
    by (simp add: f final_filter_def ALL_STATUS_def del: for_in.simps)
  show ?thesis using ruleset_invariant_iff [OF p d] p e by (simp del: for_in.simps)
qed

theorem ruleset_invariant_counterexample:
  "getLabelGlobMapFromObject
     (JObj [(''x'', JArr [JObj [(''on'', JArr [])]]),
            (''y'', JArr [JStr ''a'', JObj [(''on'', JStr ''foo'')]])])
     = Inr [(''x'', ([], [])), (''y'', ([''a''], [JStr ''foo'']))]
   \<and> \<not> LabelRule_invariant ([], [])
   \<and> \<not> LabelRule_invariant ([''a''], [JStr ''foo''])"
  by (simp add: getLabelGlobMapFromObject_def ALL_STATUS_def key_eval)

text \<open>
  Claim C3, as amended. The parser throws exactly when some label's value is neither a
  string nor a sequence of elements each of which is a string or an object whose \<open>on\<close>
  key holds a string or a sequence (of any elements); on every other input it returns a
  rule set. The error thrown is that of the first such label in enumeration order: when
  its value is not a sequence the message names the label, and when it is a sequence the
  error is the parser's own \<open>found unexpected ...\<close> or the \<open>TypeError\<close> of reading \<open>on\<close>
  from \<open>null\<close> or \<open>undefined\<close>. The claim as stated fails for an \<open>on\<close> key holding a
  sequence whose elements are not strings, which the parser takes.
\<close>

theorem parser_error_iff:
  "(isl (getLabelGlobMapFromObject cfg) \<longleftrightarrow>
      \<not> list_all (\<lambda>p. accepted_value (snd p)) (for_in cfg))
   \<and> (\<forall>pre label v post.
        for_in cfg = pre @ (label, v) # post \<and>
        list_all (\<lambda>p. accepted_value (snd p)) pre \<and> \<not> accepted_value v \<longrightarrow>
          (if is_JArr v
           then getLabelGlobMapFromObject cfg = Inl TypeError \<or>
                getLabelGlobMapFromObject cfg = Inl (Error ''found unexpected ...'')
           else getLabelGlobMapFromObject cfg = Inl (Error (label_msg label))))"
proof (intro conjI allI impI)
  show "isl (getLabelGlobMapFromObject cfg) \<longleftrightarrow>
      \<not> list_all (\<lambda>p. accepted_value (snd p)) (for_in cfg)"
    by (simp add: getLabelGlobMapFromObject_def labels_loop_isl)
next
  fix pre label v post
  assume a: "for_in cfg = pre @ (label, v) # post \<and>
        list_all (\<lambda>p. accepted_value (snd p)) pre \<and> \<not> accepted_value v"
  then have "isl (label_rule label v)" by (simp add: label_rule_rejected)
  then obtain e where e: "label_rule label v = Inl e" by (cases "label_rule label v") auto
  have res: "getLabelGlobMapFromObject cfg = Inl e"
    using a e labels_loop_first_error [of pre label v e post "[]"]
    by (simp add: getLabelGlobMapFromObject_def)
  show "if is_JArr v
           then getLabelGlobMapFromObject cfg = Inl TypeError \<or>
                getLabelGlobMapFromObject cfg = Inl (Error ''found unexpected ...'')
           else getLabelGlobMapFromObject cfg = Inl (Error (label_msg label))"
  proof (cases v)
    case (JArr xs)
    then have "e = TypeError \<or> e = Error ''found unexpected ...''"
      using e sequence_loop_errors [of xs "([], ALL_STATUS)" e] by simp
    then show ?thesis using JArr res by auto
  next
    case (JStr s)
    then show ?thesis using a by simp
  qed (use e res in auto)
qed

theorem parser_error_iff_witness:
  "isl (getLabelGlobMapFromObject (JObj [(''docs'', JStr ''*.md''), (''bad'', JNum 42)]))
   \<and> \<not> list_all (\<lambda>p. accepted_value (snd p))
         (for_in (JObj [(''docs'', JStr ''*.md''), (''bad'', JNum 42)]))
   \<and> getLabelGlobMapFromObject (JObj [(''docs'', JStr ''*.md''), (''bad'', JNum 42)])
       = Inl (Error (label_msg ''bad''))"
proof -
  let ?cfg = "JObj [(''docs'', JStr ''*.md''), (''bad'', JNum 42)]"
  have s: "for_in ?cfg = [(''docs'', JStr ''*.md'')] @ (''bad'', JNum 42) # [] \<and>
        list_all (\<lambda>p. accepted_value (snd p)) [(''docs'', JStr ''*.md'')] \<and>
        \<not> accepted_value (JNum 42)"
    by (simp add: key_eval)
  from parser_error_iff [of ?cfg] have
    i: "isl (getLabelGlobMapFromObject ?cfg) \<longleftrightarrow>
          \<not> list_all (\<lambda>p. accepted_value (snd p)) (for_in ?cfg)"
    and f: "\<And>pre label v post. for_in ?cfg = pre @ (label, v) # post \<and>
        list_all (\<lambda>p. accepted_value (snd p)) pre \<and> \<not> accepted_value v \<Longrightarrow>
          (if is_JArr v
           then getLabelGlobMapFromObject ?cfg = Inl TypeError \<or>
                getLabelGlobMapFromObject ?cfg = Inl (Error ''found unexpected ...'')
           else getLabelGlobMapFromObject ?cfg = Inl (Error (label_msg label)))"
    by blast+
  from f [OF s] have "getLabelGlobMapFromObject ?cfg = Inl (Error (label_msg ''bad''))"
    by simp
  moreover have "\<not> list_all (\<lambda>p. accepted_value (snd p)) (for_in ?cfg)"
    by (simp add: key_eval)
  ultimately show ?thesis using i by (simp del: for_in.simps)
qed

theorem parser_error_counterexample:
  "\<not> spec_value (JArr [JObj [(''on'', JArr [JNum 1])]])
   \<and> getLabelGlobMapFromObject (JObj [(''x'', JArr [JObj [(''on'', JArr [JNum 1])]])])
       = Inr [(''x'', ([], [JNum 1]))]"
  by (simp add: getLabelGlobMapFromObject_def)

text \<open>
  Claim C4. For every config in which a label's value is a bare string \<open>s\<close>, the parser
  produces for that label the rule whose glob list is \<open>[s]\<close> and whose status filter is
  added, modified, removed: the body of the loop stores that rule for the label, the
  returned rule set holds it under the label, and the parser throws only when the value
  of another label is not one it takes.
\<close>

theorem bare_string_rule:
  "label_rule label (JStr s) = Inr ([s], [JStr ''added'', JStr ''modified'', JStr ''removed''])
   \<and> (distinct (map fst (for_in cfg)) \<and> (label, JStr s) \<in> set (for_in cfg) \<longrightarrow>
        (case getLabelGlobMapFromObject cfg of
           Inr m \<Rightarrow>
             Map_get m label = Some ([s], [JStr ''added'', JStr ''modified'', JStr ''removed''])
         | Inl e \<Rightarrow>
             list_ex (\<lambda>p. fst p \<noteq> label \<and> \<not> accepted_value (snd p)) (for_in cfg)))"
proof (intro conjI impI)
  show "label_rule label (JStr s) = Inr ([s], [JStr ''added'', JStr ''modified'', JStr ''removed''])"
    by (simp add: ALL_STATUS_def)
next
  assume a: "distinct (map fst (for_in cfg)) \<and> (label, JStr s) \<in> set (for_in cfg)"
  show "case getLabelGlobMapFromObject cfg of
           Inr m \<Rightarrow>
             Map_get m label = Some ([s], [JStr ''added'', JStr ''modified'', JStr ''removed''])
         | Inl e \<Rightarrow>
             list_ex (\<lambda>p. fst p \<noteq> label \<and> \<not> accepted_value (snd p)) (for_in cfg)"
  proof (cases "getLabelGlobMapFromObject cfg")
    case (Inr m)
    then have "Map_get m label = Some (spec_rule (JStr s))"
      using a parse_lookup [of cfg m label "JStr s"] by simp
    then show ?thesis using Inr by (simp add: ALL_STATUS_def)
  next
    case (Inl e)
    then have "isl (labels_loop (for_in cfg) [])"
      by (simp add: getLabelGlobMapFromObject_def)
    then have "\<not> list_all (\<lambda>p. accepted_value (snd p)) (for_in cfg)"
      by (simp add: labels_loop_isl)
    then obtain p where p: "p \<in> set (for_in cfg)" "\<not> accepted_value (snd p)"
      by (auto simp: list_all_iff)
    have "fst p \<noteq> label"
    proof
      assume "fst p = label"
      then have "(label, snd p) \<in> set (for_in cfg)" using p(1) by (cases p) auto
      then have "snd p = JStr s"
        using a same_key_same_value [of "for_in cfg" label "snd p" "JStr s"] by simp
      then show False using p(2) by simp
    qed
    then have "list_ex (\<lambda>p. fst p \<noteq> label \<and> \<not> accepted_value (snd p)) (for_in cfg)"
      unfolding list_ex_iff using p by blast
    then show ?thesis using Inl by simp
  qed
qed

theorem bare_string_rule_witness:
  "distinct (map fst (for_in (JObj [(''docs'', JStr ''*.md''), (''src'', JArr [JStr ''src/**''])])))
   \<and> (''docs'', JStr ''*.md'') \<in> set (for_in (JObj [(''docs'', JStr ''*.md''), (''src'', JArr [JStr ''src/**''])]))
   \<and> getLabelGlobMapFromObject (JObj [(''docs'', JStr ''*.md''), (''src'', JArr [JStr ''src/**''])])
       = Inr [(''docs'', ([''*.md''], ALL_STATUS)), (''src'', ([''src/**''], ALL_STATUS))]
   \<and> Map_get [(''docs'', ([''*.md''], ALL_STATUS)), (''src'', ([''src/**''], ALL_STATUS))] ''docs''
       = Some ([''*.md''], [JStr ''added'', JStr ''modified'', JStr ''removed''])"
proof -
  let ?cfg = "JObj [(''docs'', JStr ''*.md''), (''src'', JArr [JStr ''src/**''])]"
  have h: "distinct (map fst (for_in ?cfg)) \<and> (''docs'', JStr ''*.md'') \<in> set (for_in ?cfg)"
    by (simp add: key_eval)
  have p: "getLabelGlobMapFromObject ?cfg
       = Inr [(''docs'', ([''*.md''], ALL_STATUS)), (''src'', ([''src/**''], ALL_STATUS))]"
    by (simp add: getLabelGlobMapFromObject_def key_eval)
  from bare_string_rule [of "''docs''" "''*.md''" ?cfg] h
  have "case getLabelGlobMapFromObject ?cfg of
           Inr m \<Rightarrow>
             Map_get m ''docs'' = Some ([''*.md''], [JStr ''added'', JStr ''modified'', JStr ''removed''])
         | Inl e \<Rightarrow>
             list_ex (\<lambda>p. fst p \<noteq> ''docs'' \<and> \<not> accepted_value (snd p)) (for_in ?cfg)"
    by blast
  then show ?thesis using h p by (simp del: for_in.simps)
qed

text \<open>
  Claim C5. For every label whose value is a sequence, the parser goes through the
  elements in order: a string element is appended to the glob list, an object element
  with key \<open>on\<close> replaces the status filter (a string becomes a one-element filter, a
  sequence becomes the filter as it is). So the rule stored has the string elements in
  order as its globs and the filter of the last \<open>on\<close> entry (all statuses when there is
  none), and it is stored exactly when every element is a string or such an object: the
  parser returns that rule for a configuration of this one label, and for every
  configuration whose values it takes it returns a rule set holding that rule under the
  label.
\<close>

theorem sequence_rule:
  "sequence_step (globs, st) (JStr s) = Inr (globs @ [s], st)
   \<and> (on_filter e = Some f \<longrightarrow> sequence_step (globs, st) e = Inr (globs, f))
   \<and> (label_rule label (JArr xs) = Inr r \<longleftrightarrow>
        list_all accepted_element xs \<and> r = (string_elements xs, final_filter xs))
   \<and> (list_all accepted_element xs \<longrightarrow>
        getLabelGlobMapFromObject (JObj [(label, JArr xs)])
          = Inr [(label, (string_elements xs, final_filter xs))])
   \<and> (list_all (\<lambda>p. accepted_value (snd p)) (for_in cfg) \<and>
        distinct (map fst (for_in cfg)) \<and> (label, JArr xs) \<in> set (for_in cfg) \<longrightarrow>
          (\<exists>m'. getLabelGlobMapFromObject cfg = Inr m' \<and>
                Map_get m' label = Some (string_elements xs, final_filter xs)))
   \<and> (getLabelGlobMapFromObject cfg = Inr m \<and> distinct (map fst (for_in cfg)) \<and>
        (label, JArr xs) \<in> set (for_in cfg) \<longrightarrow>
          Map_get m label = Some (string_elements xs, final_filter xs))"
proof (intro conjI impI)
  show "sequence_step (globs, st) (JStr s) = Inr (globs @ [s], st)" by simp
next
  assume "on_filter e = Some f"
  then show "sequence_step (globs, st) e = Inr (globs, f)"
    by (cases e) (auto split: option.splits jsval.splits)
next
  show "label_rule label (JArr xs) = Inr r \<longleftrightarrow>
        list_all accepted_element xs \<and> r = (string_elements xs, final_filter xs)"
    using label_rule_iff [of label "JArr xs" r] by simp
next
  assume "list_all accepted_element xs"
  then show "getLabelGlobMapFromObject (JObj [(label, JArr xs)])
          = Inr [(label, (string_elements xs, final_filter xs))]"
    using parse_single_label [of "JArr xs" label] by simp
next
  assume a: "list_all (\<lambda>p. accepted_value (snd p)) (for_in cfg) \<and>
        distinct (map fst (for_in cfg)) \<and> (label, JArr xs) \<in> set (for_in cfg)"
  then have "\<not> isl (labels_loop (for_in cfg) [])" by (simp add: labels_loop_isl)
  then obtain m' where m': "getLabelGlobMapFromObject cfg = Inr m'"
    by (cases "labels_loop (for_in cfg) []") (auto simp: getLabelGlobMapFromObject_def)
  then have "Map_get m' label = Some (spec_rule (JArr xs))"
    using a parse_lookup [of cfg m' label "JArr xs"] by simp
  then show "\<exists>m'. getLabelGlobMapFromObject cfg = Inr m' \<and>
                Map_get m' label = Some (string_elements xs, final_filter xs)"
    using m' by simp
next
  assume "getLabelGlobMapFromObject cfg = Inr m \<and> distinct (map fst (for_in cfg)) \<and>
        (label, JArr xs) \<in> set (for_in cfg)"
  then have "Map_get m label = Some (spec_rule (JArr xs))"
    using parse_lookup [of cfg m label "JArr xs"] by simp
  then show "Map_get m label = Some (string_elements xs, final_filter xs)" by simp
qed

theorem sequence_rule_witness:
  "getLabelGlobMapFromObject
     (JObj [(''docs'', JStr ''*.md''),
            (''l'', JArr [JObj [(''on'', JArr [JStr ''added'', JStr ''modified''])], JStr ''a/**'',
                          JObj [(''on'', JStr ''removed'')], JStr ''b/**''])])
     = Inr [(''docs'', ([''*.md''], ALL_STATUS)), (''l'', ([''a/**'', ''b/**''], [JStr ''removed'']))]
   \<and> Map_get [(''docs'', ([''*.md''], ALL_STATUS)), (''l'', ([''a/**'', ''b/**''], [JStr ''removed'']))] ''l''
       = Some ([''a/**'', ''b/**''], [JStr ''removed''])
   \<and> getLabelGlobMapFromObject
       (JObj [(''l'', JArr [JObj [(''on'', JArr [JStr ''added'', JStr ''modified''])], JStr ''a/**'',
                            JObj [(''on'', JStr ''removed'')], JStr ''b/**''])])
       = Inr [(''l'', ([''a/**'', ''b/**''], [JStr ''removed'']))]"
proof -
  let ?xs = "[JObj [(''on'', JArr [JStr ''added'', JStr ''modified''])], JStr ''a/**'',
              JObj [(''on'', JStr ''removed'')], JStr ''b/**'']"
  let ?cfg = "JObj [(''docs'', JStr ''*.md''), (''l'', JArr ?xs)]"
  let ?m = "[(''docs'', ([''*.md''], ALL_STATUS)), (''l'', ([''a/**'', ''b/**''], [JStr ''removed'']))]"
  have f: "for_in ?cfg = [(''docs'', JStr ''*.md''), (''l'', JArr ?xs)]"
    by (simp add: key_eval)
  have a: "list_all accepted_element ?xs" by simp
  have h: "list_all (\<lambda>p. accepted_value (snd p)) (for_in ?cfg) \<and>
        distinct (map fst (for_in ?cfg)) \<and> (''l'', JArr ?xs) \<in> set (for_in ?cfg)"
    by (simp add: f del: for_in.simps)
  have v: "(string_elements ?xs, final_filter ?xs) = ([''a/**'', ''b/**''], [JStr ''removed''])"
    by (simp add: final_filter_def)
  note t = sequence_rule [of "[]" "[]" "''x''" JNull "[]" "''l''" ?xs "([], [])" ?cfg "[]"]
  from t h obtain m' where m': "getLabelGlobMapFromObject ?cfg = Inr m'"
    and g: "Map_get m' ''l'' = Some (string_elements ?xs, final_filter ?xs)"
    by blast
  from t a have one: "getLabelGlobMapFromObject (JObj [(''l'', JArr ?xs)])
          = Inr [(''l'', (string_elements ?xs, final_filter ?xs))]"
    by blast
  have p: "getLabelGlobMapFromObject ?cfg = Inr ?m"
    by (simp add: getLabelGlobMapFromObject_def f del: for_in.simps)
  have "m' = ?m" using m' p by simp
  then show ?thesis using g one p v by simp
qed

text \<open>
  Claim C6, as amended. For every rule set whose status filters hold only values that
  convert to strings, and every list of changed files, the label selection of \<open>run\<close>
  returns exactly the labels whose rule \<open>checkGlobs\<close> evaluates to true, in the iteration
  order of the rule set. That order is the order in which \<open>for ... in\<close> enumerates the
  labels of the configuration object: the integer-like labels first, in ascending
  numeric order, then the other labels in the order of their insertion; it is the
  insertion order of the configuration when no label is integer-like. The claim as
  stated fails for a configuration with integer-like labels.
\<close>

theorem selectLabels_in_order:
  "selectLabels mt changedFiles labelGlobs =
     (if list_all (\<lambda>e. list_all stringifiable (snd (snd e))) labelGlobs
      then Inr (map fst
             (filter (\<lambda>(label, globs, st). checkGlobs mt changedFiles globs st) labelGlobs))
      else Inl TypeError)
   \<and> (getLabelGlobMapFromObject (JObj ps) = Inr m \<and> distinct (map fst ps) \<longrightarrow>
        map fst m =
          sort_key (\<lambda>k. the (key_index k)) (filter is_index_key (map fst ps))
          @ filter (\<lambda>k. \<not> is_index_key k) (map fst ps))
   \<and> (getLabelGlobMapFromObject (JObj ps) = Inr m \<and> distinct (map fst ps) \<and>
        list_all (\<lambda>k. \<not> is_index_key k) (map fst ps) \<longrightarrow>
          map fst m = map fst ps)"
proof (intro conjI impI)
  show "selectLabels mt changedFiles labelGlobs =
     (if list_all (\<lambda>e. list_all stringifiable (snd (snd e))) labelGlobs
      then Inr (map fst
             (filter (\<lambda>(label, globs, st). checkGlobs mt changedFiles globs st) labelGlobs))
      else Inl TypeError)"
    by (rule selectLabels_eq)
next
  assume a: "getLabelGlobMapFromObject (JObj ps) = Inr m \<and> distinct (map fst ps)"
  then have "distinct (map fst (for_in (JObj ps)))"
    using distinct_for_in_JObj [of ps] by blast
  then have "map fst m = map fst (for_in (JObj ps))"
    using a parse_keys [of "JObj ps" m] by simp
  then show "map fst m =
          sort_key (\<lambda>k. the (key_index k)) (filter is_index_key (map fst ps))
          @ filter (\<lambda>k. \<not> is_index_key k) (map fst ps)"
    by (simp only: keys_for_in_JObj)
next
  assume a: "getLabelGlobMapFromObject (JObj ps) = Inr m \<and> distinct (map fst ps) \<and>
        list_all (\<lambda>k. \<not> is_index_key k) (map fst ps)"
  then have f: "for_in (JObj ps) = ps" using for_in_plain [of ps] by blast
  then have "distinct (map fst (for_in (JObj ps)))" using a by (simp only:)
  then have "map fst m = map fst (for_in (JObj ps))"
    using a parse_keys [of "JObj ps" m] by simp
  then show "map fst m = map fst ps" by (simp only: f)
qed

theorem selectLabels_in_order_witness:
  "getLabelGlobMapFromObject (JObj [(''b'', JStr ''x''), (''a'', JStr ''y''), (''c'', JStr ''x'')])
     = Inr [(''b'', ([''x''], ALL_STATUS)), (''a'', ([''y''], ALL_STATUS)), (''c'', ([''x''], ALL_STATUS))]
   \<and> distinct (map fst [(''b'', JStr ''x''), (''a'', JStr ''y''), (''c'', JStr ''x'')])
   \<and> list_all (\<lambda>k. \<not> is_index_key k) (map fst [(''b'', JStr ''x''), (''a'', JStr ''y''), (''c'', JStr ''x'')])
   \<and> selectLabels (\<lambda>g p. g = p) [\<lparr>filename = ''x'', status = ''added''\<rparr>]
        [(''b'', ([''x''], ALL_STATUS)), (''a'', ([''y''], ALL_STATUS)), (''c'', ([''x''], ALL_STATUS))]
       = Inr [''b'', ''c'']
   \<and> map fst [(''b'', ([''x''], ALL_STATUS)), (''a'', ([''y''], ALL_STATUS)), (''c'', ([''x''], ALL_STATUS))]
       = [''b'', ''a'', ''c'']"
proof -
  let ?ps = "[(''b'', JStr ''x''), (''a'', JStr ''y''), (''c'', JStr ''x'')]"
  let ?m = "[(''b'', ([''x''], ALL_STATUS)), (''a'', ([''y''], ALL_STATUS)), (''c'', ([''x''], ALL_STATUS))]"
  have k: "list_all (\<lambda>k. \<not> is_index_key k) (map fst ?ps)" by (simp add: key_eval)
  have f: "for_in (JObj ?ps) = ?ps" using k by (rule for_in_plain)
  have p: "getLabelGlobMapFromObject (JObj ?ps) = Inr ?m"
    by (simp add: getLabelGlobMapFromObject_def f del: for_in.simps)
  have d: "distinct (map fst ?ps)" by simp
  have s: "list_all (\<lambda>e. list_all stringifiable (snd (snd e))) ?m" by (simp add: ALL_STATUS_def)
  have c: "map fst (filter (\<lambda>(label, globs, st).
              checkGlobs (\<lambda>g p. g = p) [\<lparr>filename = ''x'', status = ''added''\<rparr>] globs st) ?m)
            = [''b'', ''c'']"
    by (simp add: ALL_STATUS_def)
  from selectLabels_in_order [of "\<lambda>g p. g = p" "[\<lparr>filename = ''x'', status = ''added''\<rparr>]" ?m ?ps ?m]
  have "selectLabels (\<lambda>g p. g = p) [\<lparr>filename = ''x'', status = ''added''\<rparr>] ?m = Inr [''b'', ''c'']"
    and "map fst ?m = map fst ?ps"
    using p d k s c by (simp_all del: for_in.simps)
  then show ?thesis using p d k by simp
qed

theorem selectLabels_in_order_counterexample:
  "getLabelGlobMapFromObject (JObj [(''b'', JStr ''x''), (''10'', JStr ''x''), (''2'', JStr ''x'')])
     = Inr [(''2'', ([''x''], ALL_STATUS)), (''10'', ([''x''], ALL_STATUS)), (''b'', ([''x''], ALL_STATUS))]
   \<and> selectLabels (\<lambda>g p. True) [\<lparr>filename = ''f'', status = ''added''\<rparr>]
        [(''2'', ([''x''], ALL_STATUS)), (''10'', ([''x''], ALL_STATUS)), (''b'', ([''x''], ALL_STATUS))]
       = Inr [''2'', ''10'', ''b'']
   \<and> [''2'', ''10'', ''b''] \<noteq> map fst [(''b'', JStr ''x''), (''10'', JStr ''x''), (''2'', JStr ''x'')]"
  by (simp add: getLabelGlobMapFromObject_def selectLabels_def ALL_STATUS_def key_eval)

text \<open>
  Claim C7. In every run, the call that adds labels happens if and only if the run
  reaches the selection and the selected label list is non-empty, and it then passes
  exactly the selected labels; every other call of the run is a read of the repository,
  so no label is removed from the pull request. A run reaches the selection when both
  inputs are supplied, the context has a pull request number, the client is constructed,
  the changed files and the configuration are fetched, the parser returns and the
  selection loop returns.
\<close>

theorem addLabels_iff_selected:
  "(input_repo_token w = Inr token \<and> input_configuration_path w = Inr configPath \<and>
    pull_request w = Some prNumber \<and> prNumber \<noteq> 0 \<and>
    GitHub_constructor w token = Inr () \<and>
    listFiles_response w = Inr changedFiles \<and> config_response w = Inr configObject \<and>
    getLabelGlobMapFromObject configObject = Inr labelGlobs \<and>
    selectLabels mt changedFiles labelGlobs = Inr labels \<longrightarrow>
      filter (\<lambda>c. \<not> is_read c) (calls (run mt w)) =
        (if labels = [] then []
         else [IssuesAddLabels (repo_owner w) (repo_name w) prNumber labels]))
   \<and> (filter (\<lambda>c. \<not> is_read c) (calls (run mt w)) \<noteq> [] \<longrightarrow>
        (\<exists>token' configPath' prNumber' changedFiles' configObject' labelGlobs' labels'.
           input_repo_token w = Inr token' \<and> input_configuration_path w = Inr configPath' \<and>
           pull_request w = Some prNumber' \<and> prNumber' \<noteq> 0 \<and>
           GitHub_constructor w token' = Inr () \<and>
           listFiles_response w = Inr changedFiles' \<and> config_response w = Inr configObject' \<and>
           getLabelGlobMapFromObject configObject' = Inr labelGlobs' \<and>
           selectLabels mt changedFiles' labelGlobs' = Inr labels' \<and> labels' \<noteq> [] \<and>
           filter (\<lambda>c. \<not> is_read c) (calls (run mt w)) =
             [IssuesAddLabels (repo_owner w) (repo_name w) prNumber' labels']))"
proof (intro conjI impI)
  assume "input_repo_token w = Inr token \<and> input_configuration_path w = Inr configPath \<and>
    pull_request w = Some prNumber \<and> prNumber \<noteq> 0 \<and>
    GitHub_constructor w token = Inr () \<and>
    listFiles_response w = Inr changedFiles \<and> config_response w = Inr configObject \<and>
    getLabelGlobMapFromObject configObject = Inr labelGlobs \<and>
    selectLabels mt changedFiles labelGlobs = Inr labels"
  then show "filter (\<lambda>c. \<not> is_read c) (calls (run mt w)) =
        (if labels = [] then []
         else [IssuesAddLabels (repo_owner w) (repo_name w) prNumber labels])"
    by (simp add: run_def select_phase_def getPrNumber_def Let_def)
next
  assume n: "filter (\<lambda>c. \<not> is_read c) (calls (run mt w)) \<noteq> []"
  obtain cs lg ph where sp: "select_phase mt w = (cs, lg, ph)"
    by (cases "select_phase mt w") auto
  have rd: "filter (\<lambda>c. \<not> is_read c) cs = []"
    using select_phase_calls_read [of mt w] sp by (simp add: list_all_iff)
  from n rd sp obtain prNumber' labels' where ph: "ph = Selected prNumber' labels'"
    and ne: "labels' \<noteq> []"
    and cl: "filter (\<lambda>c. \<not> is_read c) (calls (run mt w)) =
             [IssuesAddLabels (repo_owner w) (repo_name w) prNumber' labels']"
    by (cases ph) (auto simp: run_def split: if_splits)
  from sp ph obtain token' configPath' changedFiles' configObject' labelGlobs' where
    "input_repo_token w = Inr token'" "input_configuration_path w = Inr configPath'"
    "pull_request w = Some prNumber'" "prNumber' \<noteq> 0"
    "GitHub_constructor w token' = Inr ()"
    "listFiles_response w = Inr changedFiles'" "config_response w = Inr configObject'"
    "getLabelGlobMapFromObject configObject' = Inr labelGlobs'"
    "selectLabels mt changedFiles' labelGlobs' = Inr labels'"
    by (auto simp: select_phase_def getPrNumber_def Let_def
        split: sum.splits option.splits if_splits)
  then show "\<exists>token' configPath' prNumber' changedFiles' configObject' labelGlobs' labels'.
           input_repo_token w = Inr token' \<and> input_configuration_path w = Inr configPath' \<and>
           pull_request w = Some prNumber' \<and> prNumber' \<noteq> 0 \<and>
           GitHub_constructor w token' = Inr () \<and>
           listFiles_response w = Inr changedFiles' \<and> config_response w = Inr configObject' \<and>
           getLabelGlobMapFromObject configObject' = Inr labelGlobs' \<and>
           selectLabels mt changedFiles' labelGlobs' = Inr labels' \<and> labels' \<noteq> [] \<and>
           filter (\<lambda>c. \<not> is_read c) (calls (run mt w)) =
             [IssuesAddLabels (repo_owner w) (repo_name w) prNumber' labels']"
    using ne cl by blast
qed

theorem addLabels_iff_selected_witness:
  "getLabelGlobMapFromObject (JObj [(''docs'', JStr ''*.md'')])
     = Inr [(''docs'', ([''*.md''], ALL_STATUS))]
   \<and> selectLabels (\<lambda>g p. g = p) [\<lparr>filename = ''*.md'', status = ''modified''\<rparr>]
        [(''docs'', ([''*.md''], ALL_STATUS))] = Inr [''docs'']
   \<and> filter (\<lambda>c. \<not> is_read c)
        (calls (run (\<lambda>g p. g = p)
           \<lparr>input_repo_token = Inr ''t'', input_configuration_path = Inr ''.github/labeler.yml'',
            pull_request = Some 7, GitHub_constructor = (\<lambda>t. Inr ()),
            repo_owner = ''o'', repo_name = ''r'', context_sha = ''abc'',
            listFiles_response = Inr [\<lparr>filename = ''*.md'', status = ''modified''\<rparr>],
            config_response = Inr (JObj [(''docs'', JStr ''*.md'')]),
            addLabels_response = Inr ()\<rparr>))
       = [IssuesAddLabels ''o'' ''r'' 7 [''docs'']]"
proof -
  let ?w = "\<lparr>input_repo_token = Inr ''t'', input_configuration_path = Inr ''.github/labeler.yml'',
            pull_request = Some 7, GitHub_constructor = (\<lambda>t. Inr ()),
            repo_owner = ''o'', repo_name = ''r'', context_sha = ''abc'',
            listFiles_response = Inr [\<lparr>filename = ''*.md'', status = ''modified''\<rparr>],
            config_response = Inr (JObj [(''docs'', JStr ''*.md'')]),
            addLabels_response = Inr ()\<rparr>"
  have p: "getLabelGlobMapFromObject (JObj [(''docs'', JStr ''*.md'')])
     = Inr [(''docs'', ([''*.md''], ALL_STATUS))]"
    by (simp add: getLabelGlobMapFromObject_def)
  have s: "selectLabels (\<lambda>g p. g = p) [\<lparr>filename = ''*.md'', status = ''modified''\<rparr>]
        [(''docs'', ([''*.md''], ALL_STATUS))] = Inr [''docs'']"
    by (simp add: selectLabels_def ALL_STATUS_def)
  have h: "input_repo_token ?w = Inr ''t'' \<and> input_configuration_path ?w = Inr ''.github/labeler.yml'' \<and>
    pull_request ?w = Some 7 \<and> (7::nat) \<noteq> 0 \<and>
    GitHub_constructor ?w ''t'' = Inr () \<and>
    listFiles_response ?w = Inr [\<lparr>filename = ''*.md'', status = ''modified''\<rparr>] \<and>
    config_response ?w = Inr (JObj [(''docs'', JStr ''*.md'')])"
    by simp
  from addLabels_iff_selected [of ?w "''t''" "''.github/labeler.yml''" 7
      "[\<lparr>filename = ''*.md'', status = ''modified''\<rparr>]" "JObj [(''docs'', JStr ''*.md'')]"
      "[(''docs'', ([''*.md''], ALL_STATUS))]" "\<lambda>g p. g = p" "[''docs'']"] h p s
  have "filter (\<lambda>c. \<not> is_read c) (calls (run (\<lambda>g p. g = p) ?w))
          = [IssuesAddLabels ''o'' ''r'' 7 [''docs'']]"
    by simp
  then show ?thesis using p s by simp
qed

text \<open>
  Claim C8, as amended. For every run in which the triggering event context carries no
  pull request number, \<open>run\<close> makes no call on the repository client (none for the
  changed files, none for the configuration content, none for adding labels); and when
  both required inputs are supplied it returns without a failure signal after logging
  the message. The claim as stated fails when a required input is missing: \<open>getInput\<close>
  throws before the context is read, and the \<open>catch\<close> block reports the failure.
\<close>

theorem no_pull_request_exits:
  "pull_request w = None \<Longrightarrow>
     calls (run mt w) = []
     \<and> (input_repo_token w = Inr token \<and> input_configuration_path w = Inr configPath \<longrightarrow>
          outcome (run mt w) = Completed \<and> console_log (run mt w) = [no_pr_msg])"
  by (simp add: run_def select_phase_def getPrNumber_def split: sum.splits)

theorem no_pull_request_exits_witness:
  "pull_request
     \<lparr>input_repo_token = Inr ''t'', input_configuration_path = Inr ''.github/labeler.yml'',
      pull_request = None, GitHub_constructor = (\<lambda>t. Inr ()),
      repo_owner = ''o'', repo_name = ''r'', context_sha = ''abc'',
      listFiles_response = Inr [], config_response = Inr JNull,
      addLabels_response = Inr ()\<rparr> = None
   \<and> run (\<lambda>g p. g = p)
     \<lparr>input_repo_token = Inr ''t'', input_configuration_path = Inr ''.github/labeler.yml'',
      pull_request = None, GitHub_constructor = (\<lambda>t. Inr ()),
      repo_owner = ''o'', repo_name = ''r'', context_sha = ''abc'',
      listFiles_response = Inr [], config_response = Inr JNull,
      addLabels_response = Inr ()\<rparr>
     = \<lparr>calls = [], console_log = [no_pr_msg], outcome = Completed\<rparr>"
proof -
  let ?w = "\<lparr>input_repo_token = Inr ''t'', input_configuration_path = Inr ''.github/labeler.yml'',
      pull_request = None, GitHub_constructor = (\<lambda>t. Inr ()),
      repo_owner = ''o'', repo_name = ''r'', context_sha = ''abc'',
      listFiles_response = Inr [], config_response = Inr JNull,
      addLabels_response = Inr ()\<rparr>"
  have h: "pull_request ?w = None" by simp
  from no_pull_request_exits [OF h, of "\<lambda>g p. g = p" "''t''" "''.github/labeler.yml''"]
  have "calls (run (\<lambda>g p. g = p) ?w) = [] \<and>
        outcome (run (\<lambda>g p. g = p) ?w) = Completed \<and>
        console_log (run (\<lambda>g p. g = p) ?w) = [no_pr_msg]"
    by simp
  then show ?thesis by (cases "run (\<lambda>g p. g = p) ?w") simp
qed

theorem no_pull_request_counterexample:
  "pull_request
     \<lparr>input_repo_token = Inl (Error ''Input required and not supplied: repo-token''),
      input_configuration_path = Inr ''.github/labeler.yml'',
      pull_request = None, GitHub_constructor = (\<lambda>t. Inr ()),
      repo_owner = ''o'', repo_name = ''r'', context_sha = ''abc'',
      listFiles_response = Inr [], config_response = Inr JNull,
      addLabels_response = Inr ()\<rparr> = None
   \<and> outcome (run (\<lambda>g p. g = p)
     \<lparr>input_repo_token = Inl (Error ''Input required and not supplied: repo-token''),
      input_configuration_path = Inr ''.github/labeler.yml'',
      pull_request = None, GitHub_constructor = (\<lambda>t. Inr ()),
      repo_owner = ''o'', repo_name = ''r'', context_sha = ''abc'',
      listFiles_response = Inr [], config_response = Inr JNull,
      addLabels_response = Inr ()\<rparr>)
     = Failed (Error ''Input required and not supplied: repo-token'')"
  by (simp add: run_def select_phase_def)

text \<open>
  Claim C9. For every label whose configured sequence contains only \<open>on\<close> objects and no
  string element, the parser accepts it and produces a rule with an empty glob list, and
  for every list of changed files \<open>checkGlobs\<close> returns false on such a rule, so the label
  is never selected.
\<close>

theorem on_only_never_selected:
  "list_all on_object xs \<Longrightarrow>
     label_rule label (JArr xs) = Inr ([], final_filter xs)
     \<and> \<not> checkGlobs mt changedFiles [] (final_filter xs)
     \<and> (getLabelGlobMapFromObject cfg = Inr m \<and> distinct (map fst (for_in cfg)) \<and>
          (label, JArr xs) \<in> set (for_in cfg) \<longrightarrow>
            Map_get m label = Some ([], final_filter xs) \<and>
            (\<forall>labels. selectLabels mt changedFiles m = Inr labels \<longrightarrow>
               label \<notin> set labels))"
proof (intro conjI impI)
  assume on: "list_all on_object xs"
  have acc: "list_all accepted_element xs"
    using on by (auto simp: list_all_iff on_object_accepted)
  have no: "string_elements xs = []" using on by (rule on_objects_no_strings)
  show "label_rule label (JArr xs) = Inr ([], final_filter xs)"
    using label_rule_iff [of label "JArr xs" "([], final_filter xs)"] acc no by simp
  show "\<not> checkGlobs mt changedFiles [] (final_filter xs)" by simp
  assume a: "getLabelGlobMapFromObject cfg = Inr m \<and> distinct (map fst (for_in cfg)) \<and>
          (label, JArr xs) \<in> set (for_in cfg)"
  then have "Map_get m label = Some (spec_rule (JArr xs))"
    using parse_lookup [of cfg m label "JArr xs"] by simp
  then show g: "Map_get m label = Some ([], final_filter xs)" using no by simp
  have "distinct (map fst m)" using a parse_keys [of cfg m] by simp
  then show "\<forall>labels. selectLabels mt changedFiles m = Inr labels \<longrightarrow> label \<notin> set labels"
    using g not_selected [of m label "[]" "final_filter xs" mt changedFiles] by simp
qed

theorem on_only_never_selected_witness:
  "list_all on_object [JObj [(''on'', JArr [JStr ''added'', JStr ''modified''])]]
   \<and> getLabelGlobMapFromObject
       (JObj [(''feature'', JArr [JObj [(''on'', JArr [JStr ''added'', JStr ''modified''])]]),
              (''docs'', JStr ''a'')])
       = Inr [(''feature'', ([], [JStr ''added'', JStr ''modified''])), (''docs'', ([''a''], ALL_STATUS))]
   \<and> selectLabels (\<lambda>g p. True) [\<lparr>filename = ''a'', status = ''added''\<rparr>]
        [(''feature'', ([], [JStr ''added'', JStr ''modified''])), (''docs'', ([''a''], ALL_STATUS))]
       = Inr [''docs'']
   \<and> ''feature'' \<notin> set [''docs'']"
proof -
  let ?xs = "[JObj [(''on'', JArr [JStr ''added'', JStr ''modified''])]]"
  let ?cfg = "JObj [(''feature'', JArr ?xs), (''docs'', JStr ''a'')]"
  let ?m = "[(''feature'', ([], [JStr ''added'', JStr ''modified''])), (''docs'', ([''a''], ALL_STATUS))]"
  have h: "list_all on_object ?xs" by (simp add: on_object_def)
  have p: "getLabelGlobMapFromObject ?cfg = Inr ?m"
    by (simp add: getLabelGlobMapFromObject_def key_eval)
  have d: "distinct (map fst (for_in ?cfg)) \<and> (''feature'', JArr ?xs) \<in> set (for_in ?cfg)"
    by (simp add: key_eval)
  have s: "selectLabels (\<lambda>g p. True) [\<lparr>filename = ''a'', status = ''added''\<rparr>] ?m = Inr [''docs'']"
    by (simp add: selectLabels_def ALL_STATUS_def)
  from on_only_never_selected [OF h, of "''feature''" "\<lambda>g p. True"
      "[\<lparr>filename = ''a'', status = ''added''\<rparr>]" ?cfg ?m] p d s
  have "''feature'' \<notin> set [''docs'']"
    by blast
  then show ?thesis using h p s by simp
qed

text \<open>
  Claim C10. The parser stores the value of an \<open>on\<close> entry without checking that it is
  among added, modified, removed: for every \<open>on\<close> entry whose value is a string of any
  content the loop body sets the status filter to that one string, and for every \<open>on\<close>
  entry whose value is an array, of any elements and also empty, it sets the filter to
  that array; no error is thrown, and a label made of globs followed by such an entry
  gets that filter. A rule with the empty filter of \<open>on: []\<close> evaluates to false on
  every list of changed files.
\<close>

theorem on_value_stored:
  "(map_of ps ''on'' = Some (JStr s) \<longrightarrow>
      sequence_step (globs, st) (JObj ps) = Inr (globs, [JStr s]) \<and>
      getLabelGlobMapFromObject (JObj [(label, JArr (map JStr gs @ [JObj ps]))])
        = Inr [(label, (gs, [JStr s]))])
   \<and> (map_of ps ''on'' = Some (JArr a) \<longrightarrow>
      sequence_step (globs, st) (JObj ps) = Inr (globs, a) \<and>
      getLabelGlobMapFromObject (JObj [(label, JArr (map JStr gs @ [JObj ps]))])
        = Inr [(label, (gs, a))])
   \<and> getLabelGlobMapFromObject (JObj [(label, JArr (map JStr gs @ [JObj [(''on'', JArr [])]]))])
        = Inr [(label, (gs, []))]
   \<and> \<not> checkGlobs mt changedFiles gs []"
proof (intro conjI impI)
  assume o: "map_of ps ''on'' = Some (JStr s)"
  then show "sequence_step (globs, st) (JObj ps) = Inr (globs, [JStr s])" by simp
  have "accepted_value (JArr (map JStr gs @ [JObj ps]))"
    using o by (simp add: accepted_strings)
  then show "getLabelGlobMapFromObject (JObj [(label, JArr (map JStr gs @ [JObj ps]))])
        = Inr [(label, (gs, [JStr s]))]"
    using o parse_single_label [of "JArr (map JStr gs @ [JObj ps])" label]
    by (simp add: string_elements_strings on_filters_strings final_filter_def)
next
  assume o: "map_of ps ''on'' = Some (JArr a)"
  then show "sequence_step (globs, st) (JObj ps) = Inr (globs, a)" by simp
  have "accepted_value (JArr (map JStr gs @ [JObj ps]))"
    using o by (simp add: accepted_strings)
  then show "getLabelGlobMapFromObject (JObj [(label, JArr (map JStr gs @ [JObj ps]))])
        = Inr [(label, (gs, a))]"
    using o parse_single_label [of "JArr (map JStr gs @ [JObj ps])" label]
    by (simp add: string_elements_strings on_filters_strings final_filter_def)
next
  have "accepted_value (JArr (map JStr gs @ [JObj [(''on'', JArr [])]]))"
    by (simp add: accepted_strings)
  then show "getLabelGlobMapFromObject (JObj [(label, JArr (map JStr gs @ [JObj [(''on'', JArr [])]]))])
        = Inr [(label, (gs, []))]"
    using parse_single_label [of "JArr (map JStr gs @ [JObj [(''on'', JArr [])]])" label]
    by (simp add: string_elements_strings on_filters_strings final_filter_def)
next
  show "\<not> checkGlobs mt changedFiles gs []" by (rule checkGlobs_empty_filter)
qed

theorem on_value_stored_witness:
  "map_of [(''on'', JStr ''renamed'')] ''on'' = Some (JStr ''renamed'')
   \<and> getLabelGlobMapFromObject
        (JObj [(''x'', JArr (map JStr [''src/**''] @ [JObj [(''on'', JStr ''renamed'')]]))])
       = Inr [(''x'', ([''src/**''], [JStr ''renamed'']))]
   \<and> map_of [(''on'', JArr [JNum 1, JNull])] ''on'' = Some (JArr [JNum 1, JNull])
   \<and> getLabelGlobMapFromObject
        (JObj [(''x'', JArr (map JStr [''src/**''] @ [JObj [(''on'', JArr [JNum 1, JNull])]]))])
       = Inr [(''x'', ([''src/**''], [JNum 1, JNull]))]
   \<and> \<not> checkGlobs (\<lambda>g p. True) [\<lparr>filename = ''src/a.ts'', status = ''added''\<rparr>] [''src/**''] []"
proof -
  have a: "map_of [(''on'', JStr ''renamed'')] ''on'' = Some (JStr ''renamed'')" by simp
  have b: "map_of [(''on'', JArr [JNum 1, JNull])] ''on'' = Some (JArr [JNum 1, JNull])" by simp
  from on_value_stored [of "[(''on'', JStr ''renamed'')]" "''renamed''" "[]" "[]" "''x''"
      "[''src/**'']" "[]" "\<lambda>g p. True" "[\<lparr>filename = ''src/a.ts'', status = ''added''\<rparr>]"] a
  have 1: "getLabelGlobMapFromObject
        (JObj [(''x'', JArr (map JStr [''src/**''] @ [JObj [(''on'', JStr ''renamed'')]]))])
       = Inr [(''x'', ([''src/**''], [JStr ''renamed'']))]"
    and 3: "\<not> checkGlobs (\<lambda>g p. True) [\<lparr>filename = ''src/a.ts'', status = ''added''\<rparr>] [''src/**''] []"
    by blast+
  from on_value_stored [of "[(''on'', JArr [JNum 1, JNull])]" "''renamed''" "[]" "[]" "''x''"
      "[''src/**'']" "[JNum 1, JNull]" "\<lambda>g p. True" "[]"] b
  have 2: "getLabelGlobMapFromObject
        (JObj [(''x'', JArr (map JStr [''src/**''] @ [JObj [(''on'', JArr [JNum 1, JNull])]]))])
       = Inr [(''x'', ([''src/**''], [JNum 1, JNull]))]"
    by blast
  show ?thesis using a b 1 2 3 by blast
qed

end
